theory Spec2Isabelle
  imports Complex_Main
begin

section \<open>Dates (dateutils.py)\<close>

text \<open>
  A timezone-aware \<^verbatim>\<open>datetime\<close> denotes an instant with microsecond resolution; it is
  modelled by the number of microseconds since the epoch, so that comparison and
  subtraction of aware datetimes are comparison and subtraction of integers.
  The library function \<^verbatim>\<open>datetime.strptime\<close> at the format
  \<^verbatim>\<open>%Y-%m-%dT%H:%M:%S.%f%z\<close> is not code of the repository: it is the parameter
  \<open>lib\<close> below, with \<open>None\<close> where the library raises \<^verbatim>\<open>ValueError\<close>.
  \<^verbatim>\<open>timedelta.total_seconds()\<close> is the number of microseconds divided by \<open>10^6\<close>;
  Python's float is idealised as a real number.
\<close>

datatype error = ValueError | IndexError | KeyError

type_synonym instant = int
type_synonym parser = "string \<Rightarrow> instant option"

definition strptime :: "parser \<Rightarrow> string \<Rightarrow> error + instant" where
  "strptime lib date_str = (case lib date_str of None \<Rightarrow> Inl ValueError | Some t \<Rightarrow> Inr t)"

text \<open>The argument of \<^verbatim>\<open>datetime_compare\<close> is a string or a datetime object.\<close>

datatype datearg = Str string | Dt instant

definition total_seconds :: "int \<Rightarrow> real" where
  "total_seconds delta = real_of_int delta / 1000000"

definition to_datetime :: "parser \<Rightarrow> datearg \<Rightarrow> error + instant" where
  "to_datetime lib a = (case a of Str s \<Rightarrow> strptime lib s | Dt t \<Rightarrow> Inr t)"

definition datetime_compare :: "parser \<Rightarrow> datearg \<Rightarrow> datearg \<Rightarrow> error + real" where
  "datetime_compare lib a b =
     (case to_datetime lib a of
        Inl e \<Rightarrow> Inl e
      | Inr start \<Rightarrow>
          (case to_datetime lib b of
             Inl e \<Rightarrow> Inl e
           | Inr stop \<Rightarrow> (let delta = stop - start in Inr (- total_seconds delta))))"

section \<open>Python containers\<close>

text \<open>
  A \<^verbatim>\<open>dict\<close> keeps its keys in insertion order, and the order decides which maximal
  key \<^verbatim>\<open>max\<close> returns; it is an association list with distinct keys.
  \<open>dict_modify k d f\<close> is \<^verbatim>\<open>m[k] = f(m.get(k, d))\<close>: a key that is present keeps its
  place, a new key goes to the end.
\<close>

fun dict_modify :: "'k \<Rightarrow> 'v \<Rightarrow> ('v \<Rightarrow> 'v) \<Rightarrow> ('k \<times> 'v) list \<Rightarrow> ('k \<times> 'v) list" where
  "dict_modify k d f [] = [(k, f d)]"
| "dict_modify k d f ((k', v) # m) =
     (if k' = k then (k, f v) # m else (k', v) # dict_modify k d f m)"

definition setdefault :: "'k \<Rightarrow> 'v \<Rightarrow> ('k \<times> 'v) list \<Rightarrow> ('k \<times> 'v) list" where
  "setdefault k d m = dict_modify k d (\<lambda>v. v) m"

definition setitem :: "'k \<Rightarrow> 'v \<Rightarrow> ('k \<times> 'v) list \<Rightarrow> ('k \<times> 'v) list" where
  "setitem k v m = dict_modify k v (\<lambda>_. v) m"

definition getitem :: "('k \<times> 'v) list \<Rightarrow> 'k \<Rightarrow> error + 'v" where
  "getitem m k = (case map_of m k of None \<Rightarrow> Inl KeyError | Some v \<Rightarrow> Inr v)"

text \<open>List indexing: a negative index counts from the end, an index out of range raises.\<close>

definition getidx :: "'a list \<Rightarrow> int \<Rightarrow> error + 'a" where
  "getidx xs i =
     (if 0 \<le> i \<and> i < int (length xs) then Inr (xs ! nat i)
      else if - int (length xs) \<le> i \<and> i < 0 then Inr (xs ! nat (int (length xs) + i))
      else Inl IndexError)"

section \<open>Data model (report.py)\<close>

text \<open>
  An entry of a timeline is the dict \<^verbatim>\<open>{"date": .., "from": .., "to": ..}\<close>; \<^verbatim>\<open>from\<close> and
  \<^verbatim>\<open>to\<close> are ids or \<^verbatim>\<open>None\<close>. The changelog maps an issue id to its two timelines.
\<close>

record transition =
  date :: string
  log_from :: "string option"
  log_to :: "string option"

record timelines =
  statuses :: "transition list"
  assignees :: "transition list"

type_synonym changelog = "(string \<times> timelines) list"

type_synonym scores = "(string option \<times> real) list"

type_synonym workloads = "(string \<times> scores) list"

text \<open>
  The part of the fetched document that \<^verbatim>\<open>build_changelog\<close> reads:
  \<^verbatim>\<open>issue["id"]\<close>, \<^verbatim>\<open>issue["fields"]["created"]\<close>, \<^verbatim>\<open>issue["fields"]["status"]["id"]\<close>,
  \<^verbatim>\<open>issue["fields"]["assignee"]\<close> (\<^verbatim>\<open>None\<close>, or a dict of which \<^verbatim>\<open>accountId\<close> is read) and
  \<^verbatim>\<open>issue["changelog"]["histories"]\<close>.
\<close>

record item =
  field :: string
  fieldtype :: string
  item_from :: "string option"
  item_to :: "string option"

record history =
  created :: string
  items :: "item list"

record issue =
  issue_id :: string
  fields_created :: string
  fields_status_id :: string
  fields_assignee :: "string option"
  histories :: "history list"

record response =
  issues :: "issue list"

section \<open>find_at_time\<close>

text \<open>
  The loop over \<^verbatim>\<open>items\<close> with the variable \<^verbatim>\<open>previous\<close>; \<^verbatim>\<open>break\<close> returns the value
  of \<^verbatim>\<open>previous\<close> reached so far.
\<close>

fun find_loop :: "parser \<Rightarrow> datearg \<Rightarrow> bool \<Rightarrow> transition list \<Rightarrow> transition option
    \<Rightarrow> error + transition option" where
  "find_loop lib d inclusive [] previous = Inr previous"
| "find_loop lib d inclusive (item # rest) previous =
     (case datetime_compare lib (Str (date item)) d of
        Inl e \<Rightarrow> Inl e
      | Inr diff \<Rightarrow>
          (if diff < 0 \<or> (inclusive \<and> diff = 0)
           then find_loop lib d inclusive rest (Some item)
           else Inr previous))"

definition timeline_of :: "timelines \<Rightarrow> string \<Rightarrow> error + transition list" where
  "timeline_of flds timeline_key =
     (if timeline_key = ''statuses'' then Inr (statuses flds)
      else if timeline_key = ''assignees'' then Inr (assignees flds)
      else Inl KeyError)"

text \<open>
  \<^verbatim>\<open>previous or items[0]\<close>: a copied entry is a dict of three keys, hence true; only
  \<^verbatim>\<open>None\<close> falls through to \<^verbatim>\<open>items[0]\<close>.
\<close>

definition find_at_time :: "parser \<Rightarrow> changelog \<Rightarrow> datearg \<Rightarrow> string \<Rightarrow> string \<Rightarrow> bool
    \<Rightarrow> error + transition" where
  "find_at_time lib changelog d issue_key timeline_key inclusive =
     (case getitem changelog issue_key of
        Inl e \<Rightarrow> Inl e
      | Inr flds \<Rightarrow>
          (case timeline_of flds timeline_key of
             Inl e \<Rightarrow> Inl e
           | Inr its \<Rightarrow>
               (case find_loop lib d inclusive its None of
                  Inl e \<Rightarrow> Inl e
                | Inr (Some previous) \<Rightarrow> Inr previous
                | Inr None \<Rightarrow> getidx its 0)))"

section \<open>build_changelog\<close>

text \<open>
  The two inner loops append to \<^verbatim>\<open>status_changes\<close> and \<^verbatim>\<open>assignee_changes\<close>, the pair
  that is threaded through.
\<close>

fun items_loop :: "string \<Rightarrow> item list \<Rightarrow> transition list \<times> transition list
    \<Rightarrow> transition list \<times> transition list" where
  "items_loop c [] acc = acc"
| "items_loop c (it # rest) (status_changes, assignee_changes) =
     (if field it = ''status'' \<and> fieldtype it = ''jira''
      then items_loop c rest
             (status_changes @ [\<lparr>date = c, log_from = item_from it, log_to = item_to it\<rparr>],
              assignee_changes)
      else if field it = ''assignee'' \<and> fieldtype it = ''jira''
      then items_loop c rest
             (status_changes,
              assignee_changes @ [\<lparr>date = c, log_from = item_from it, log_to = item_to it\<rparr>])
      else items_loop c rest (status_changes, assignee_changes))"

fun histories_loop :: "history list \<Rightarrow> transition list \<times> transition list
    \<Rightarrow> transition list \<times> transition list" where
  "histories_loop [] acc = acc"
| "histories_loop (h # rest) acc = histories_loop rest (items_loop (created h) (items h) acc)"

definition initial_status :: "issue \<Rightarrow> transition list \<Rightarrow> transition" where
  "initial_status i status_changes =
     \<lparr>date = fields_created i, log_from = None,
      log_to = (if length status_changes > 0 then log_from (last status_changes)
                else Some (fields_status_id i))\<rparr>"

definition initial_assignee :: "issue \<Rightarrow> transition list \<Rightarrow> transition" where
  "initial_assignee i assignee_changes =
     \<lparr>date = fields_created i, log_from = None,
      log_to = (if length assignee_changes > 0 then log_from (last assignee_changes)
                else fields_assignee i)\<rparr>"

definition issue_timelines :: "issue \<Rightarrow> timelines" where
  "issue_timelines i =
     (case histories_loop (histories i) ([], []) of
        (status_changes, assignee_changes) \<Rightarrow>
          \<lparr>statuses = rev (status_changes @ [initial_status i status_changes]),
           assignees = rev (assignee_changes @ [initial_assignee i assignee_changes])\<rparr>)"

fun issues_loop :: "issue list \<Rightarrow> changelog \<Rightarrow> changelog" where
  "issues_loop [] changelog = changelog"
| "issues_loop (i # rest) changelog =
     issues_loop rest (setitem (issue_id i) (issue_timelines i) changelog)"

definition build_changelog :: "response \<Rightarrow> changelog" where
  "build_changelog resp = issues_loop (issues resp) []"

section \<open>calculate_workload\<close>

definition target_status_idx :: "transition list \<Rightarrow> string option \<Rightarrow> nat list" where
  "target_status_idx sts target_status =
     filter (\<lambda>i. log_from (sts ! i) = target_status) [0 ..< length sts]"

text \<open>
  \<^verbatim>\<open>per_issue.setdefault(issue_id, {}).setdefault(assignee, 0)\<close> and
  \<^verbatim>\<open>per_issue[issue_id][assignee] += x\<close>; the second always follows the first, so its
  key is present.
\<close>

definition touch :: "string \<Rightarrow> string option \<Rightarrow> workloads \<Rightarrow> workloads" where
  "touch issue_key assignee per_issue =
     dict_modify issue_key [] (setdefault assignee 0) per_issue"

definition credit :: "string \<Rightarrow> string option \<Rightarrow> real \<Rightarrow> workloads \<Rightarrow> workloads" where
  "credit issue_key assignee x per_issue =
     dict_modify issue_key [] (dict_modify assignee 0 (\<lambda>v. v + x)) per_issue"

text \<open>
  The \<^verbatim>\<open>while\<close> loop of one window. Its state is the cursor \<^verbatim>\<open>assignee_idx\<close>, the moving
  \<^verbatim>\<open>start\<close> and \<^verbatim>\<open>per_issue\<close>; it returns the cursor and \<^verbatim>\<open>per_issue\<close>, which the next
  window goes on from.
\<close>

function sweep :: "parser \<Rightarrow> string \<Rightarrow> transition list \<Rightarrow> instant \<Rightarrow> instant \<Rightarrow> nat
    \<Rightarrow> workloads \<Rightarrow> error + nat \<times> workloads" where
  "sweep lib issue_key asg start stop assignee_idx per_issue =
     (if assignee_idx < length asg then
        (case strptime lib (date (asg ! assignee_idx)) of
           Inl e \<Rightarrow> Inl e
         | Inr d \<Rightarrow>
             (let assignee = log_from (asg ! assignee_idx) in
              if d < start
              then sweep lib issue_key asg start stop (assignee_idx + 1) per_issue
              else
                (let per_issue1 = touch issue_key assignee per_issue in
                 if d < stop
                 then (case datetime_compare lib (Dt d) (Dt start) of
                         Inl e \<Rightarrow> Inl e
                       | Inr x \<Rightarrow>
                           sweep lib issue_key asg d stop (assignee_idx + 1)
                             (credit issue_key assignee x per_issue1))
                 else (case datetime_compare lib (Dt stop) (Dt start) of
                         Inl e \<Rightarrow> Inl e
                       | Inr x \<Rightarrow>
                           Inr (assignee_idx, credit issue_key assignee x per_issue1)))))
      else Inr (assignee_idx, per_issue))"
  by pat_completeness auto
termination
  by (relation "measure (\<lambda>(lib, issue_key, asg, start, stop, assignee_idx, per_issue).
        length asg - assignee_idx)") auto

declare sweep.simps [simp del]

text \<open>The \<^verbatim>\<open>for i in target_status_idx\<close> loop of one issue.\<close>

fun windows_loop :: "parser \<Rightarrow> string \<Rightarrow> timelines \<Rightarrow> nat list \<Rightarrow> nat \<times> workloads
    \<Rightarrow> error + nat \<times> workloads" where
  "windows_loop lib issue_key flds [] st = Inr st"
| "windows_loop lib issue_key flds (i # rest) (assignee_idx, per_issue) =
     (case getidx (statuses flds) (int i - 1) of
        Inl e \<Rightarrow> Inl e
      | Inr prev \<Rightarrow>
          (case strptime lib (date prev) of
             Inl e \<Rightarrow> Inl e
           | Inr start \<Rightarrow>
               (case getidx (statuses flds) (int i) of
                  Inl e \<Rightarrow> Inl e
                | Inr cur \<Rightarrow>
                    (case strptime lib (date cur) of
                       Inl e \<Rightarrow> Inl e
                     | Inr stop \<Rightarrow>
                         (case sweep lib issue_key (assignees flds) start stop
                                 assignee_idx per_issue of
                            Inl e \<Rightarrow> Inl e
                          | Inr st \<Rightarrow> windows_loop lib issue_key flds rest st)))))"

text \<open>The loop over \<^verbatim>\<open>changelog.items()\<close>; the cursor starts at 0 for each issue.\<close>

fun changelog_loop :: "parser \<Rightarrow> string option \<Rightarrow> changelog \<Rightarrow> workloads
    \<Rightarrow> error + workloads" where
  "changelog_loop lib target_status [] per_issue = Inr per_issue"
| "changelog_loop lib target_status ((issue_key, flds) # rest) per_issue =
     (case windows_loop lib issue_key flds
             (target_status_idx (statuses flds) target_status) (0, per_issue) of
        Inl e \<Rightarrow> Inl e
      | Inr (assignee_idx, per_issue1) \<Rightarrow> changelog_loop lib target_status rest per_issue1)"

definition calculate_workload :: "parser \<Rightarrow> changelog \<Rightarrow> string option \<Rightarrow> error + workloads" where
  "calculate_workload lib changelog target_status =
     changelog_loop lib target_status changelog []"

section \<open>group_by_lead\<close>





section \<open>Properties of timelines and allocations\<close>

text \<open>
  The Timeline invariant of the specification, read through the parser. \<open>ascending\<close>:
  every date parses and the instants do not decrease. \<open>timeline_ok\<close>: moreover the
  timeline is not empty and its first entry has no \<^verbatim>\<open>from\<close>.
\<close>

definition ascending :: "parser \<Rightarrow> transition list \<Rightarrow> bool" where
  "ascending lib tline =
     (list_all (\<lambda>t. lib (date t) \<noteq> None) tline
      \<and> sorted (map (\<lambda>t. the (lib (date t))) tline))"

definition timeline_ok :: "parser \<Rightarrow> transition list \<Rightarrow> bool" where
  "timeline_ok lib tline = (tline \<noteq> [] \<and> log_from (hd tline) = None \<and> ascending lib tline)"

text \<open>Every duration of an allocation is at least zero.\<close>

definition nonneg :: "workloads \<Rightarrow> bool" where
  "nonneg ws = list_all (\<lambda>al. list_all (\<lambda>v. 0 \<le> v) (map snd al)) (map snd ws)"

text \<open>The seconds that an allocation gives to one issue, over all its assignees.\<close>

definition allocated_seconds :: "workloads \<Rightarrow> string \<Rightarrow> real" where
  "allocated_seconds ws issue_key =
     (case map_of ws issue_key of None \<Rightarrow> 0 | Some al \<Rightarrow> sum_list (map snd al))"


text \<open>
  The algorithm of the specification for the timelines, in its words. Step 1: the events
  tagged for the field, in the order of the raw list. Step 2: the synthetic initial
  transition. Step 3, as written: the synthetic entry is prepended to the filtered list
  and the whole sequence is reversed.
\<close>

definition as_transition :: "string \<Rightarrow> item \<Rightarrow> transition" where
  "as_transition c it = \<lparr>date = c, log_from = item_from it, log_to = item_to it\<rparr>"

definition status_events :: "history list \<Rightarrow> transition list" where
  "status_events hs =
     concat (map (\<lambda>h. map (as_transition (created h))
                    (filter (\<lambda>it. field it = ''status'' \<and> fieldtype it = ''jira'') (items h))) hs)"

definition assignee_events :: "history list \<Rightarrow> transition list" where
  "assignee_events hs =
     concat (map (\<lambda>h. map (as_transition (created h))
                    (filter (\<lambda>it. field it = ''assignee'' \<and> fieldtype it = ''jira'') (items h))) hs)"

definition synthetic_status :: "issue \<Rightarrow> transition" where
  "synthetic_status i =
     \<lparr>date = fields_created i, log_from = None,
      log_to = (case status_events (histories i) of
                  [] \<Rightarrow> Some (fields_status_id i)
                | e # es \<Rightarrow> log_from (last (e # es)))\<rparr>"

definition synthetic_assignee :: "issue \<Rightarrow> transition" where
  "synthetic_assignee i =
     \<lparr>date = fields_created i, log_from = None,
      log_to = (case assignee_events (histories i) of
                  [] \<Rightarrow> fields_assignee i
                | e # es \<Rightarrow> log_from (last (e # es)))\<rparr>"

definition spec_timeline :: "transition \<Rightarrow> transition list \<Rightarrow> transition list" where
  "spec_timeline synthetic filtered = rev (synthetic # filtered)"



section \<open>Sample data\<close>

text \<open>
  Four values of the library parser, at the timestamps of the docstring of
  \<^verbatim>\<open>build_changelog\<close> and one day after the last of them: 2023-01-01 10:00:00 UTC is
  1672567200 seconds after the epoch. Every other string of the examples below
  (\<^verbatim>\<open>not-a-date\<close>) is one the library rejects.
\<close>

definition sample_lib :: parser where
  "sample_lib = map_of
     [(''2023-01-01T10:00:00.000+0000'', 1672567200000000),
      (''2023-01-02T14:30:00.000+0000'', 1672669800000000),
      (''2023-01-03T09:15:00.000+0000'', 1672737300000000),
      (''2023-01-04T09:15:00.000+0000'', 1672823700000000)]"

abbreviation t0 :: string where "t0 \<equiv> ''2023-01-01T10:00:00.000+0000''"
abbreviation t1 :: string where "t1 \<equiv> ''2023-01-02T14:30:00.000+0000''"
abbreviation t1h :: string where "t1h \<equiv> ''2023-01-03T09:15:00.000+0000''"
abbreviation t2 :: string where "t2 \<equiv> ''2023-01-04T09:15:00.000+0000''"

text \<open>Scenario A of the specification, with status ids of the docstrings.\<close>

definition scenario_A :: changelog where
  "scenario_A =
     [(''12345'',
       \<lparr>statuses =
          [\<lparr>date = t0, log_from = None, log_to = Some ''10001''\<rparr>,
           \<lparr>date = t1, log_from = Some ''10001'', log_to = Some ''10111''\<rparr>,
           \<lparr>date = t2, log_from = Some ''10111'', log_to = Some ''10001''\<rparr>],
        assignees =
          [\<lparr>date = t0, log_from = None, log_to = Some ''user123''\<rparr>,
           \<lparr>date = t1h, log_from = Some ''user123'', log_to = Some ''user456''\<rparr>]\<rparr>)]"

text \<open>The same issue when it is never reassigned.\<close>

definition never_reassigned :: changelog where
  "never_reassigned =
     [(''12345'',
       \<lparr>statuses =
          [\<lparr>date = t0, log_from = None, log_to = Some ''10001''\<rparr>,
           \<lparr>date = t1, log_from = Some ''10001'', log_to = Some ''10111''\<rparr>,
           \<lparr>date = t2, log_from = Some ''10111'', log_to = Some ''10001''\<rparr>],
        assignees =
          [\<lparr>date = t0, log_from = None, log_to = Some ''user123''\<rparr>]\<rparr>)]"

text \<open>
  A fetched document with one issue, its histories newest first: the status went from
  10001 to 10111 at \<open>t1\<close>, the assignee from user123 to user456 at \<open>t1h\<close>.
\<close>

definition sample_issue :: issue where
  "sample_issue =
     \<lparr>issue_id = ''12345'', fields_created = t0, fields_status_id = ''10111'',
      fields_assignee = Some ''user456'',
      histories =
        [\<lparr>created = t1h,
          items = [\<lparr>field = ''assignee'', fieldtype = ''jira'',
                    item_from = Some ''user123'', item_to = Some ''user456''\<rparr>]\<rparr>,
         \<lparr>created = t1,
          items = [\<lparr>field = ''status'', fieldtype = ''jira'',
                    item_from = Some ''10001'', item_to = Some ''10111''\<rparr>]\<rparr>]\<rparr>"

definition sample_response :: response where
  "sample_response = \<lparr>issues = [sample_issue]\<rparr>"

text \<open>Scenario B of the specification: the issue enters 10111 and does not leave it.\<close>

definition scenario_B :: changelog where
  "scenario_B =
     [(''12345'',
       \<lparr>statuses =
          [\<lparr>date = t0, log_from = None, log_to = Some ''10001''\<rparr>,
           \<lparr>date = t1, log_from = Some ''10001'', log_to = Some ''10111''\<rparr>],
        assignees =
          [\<lparr>date = t0, log_from = None, log_to = Some ''user123''\<rparr>]\<rparr>)]"









text \<open>A changelog whose status timeline has two transitions with the same timestamp.\<close>

definition tie_changelog :: changelog where
  "tie_changelog =
     [(''12345'',
       \<lparr>statuses =
          [\<lparr>date = t0, log_from = None, log_to = Some ''10001''\<rparr>,
           \<lparr>date = t0, log_from = Some ''10001'', log_to = Some ''10111''\<rparr>],
        assignees =
          [\<lparr>date = t0, log_from = None, log_to = Some ''user123''\<rparr>]\<rparr>)]"


section \<open>Lemmas on dates, dicts and the sweep\<close>

lemma datetime_compare_Dt: "datetime_compare lib (Dt a) (Dt b) = Inr (real_of_int (a - b) / 1000000)"
  by (simp add: datetime_compare_def to_datetime_def total_seconds_def field_simps)

lemma dict_modify_vals:
  assumes "list_all P (map snd m)" and "P (f d)" and "\<And>v. P v \<Longrightarrow> P (f v)"
  shows "list_all P (map snd (dict_modify k d f m))"
  using assms by (induction m) auto

lemma nonneg_touch: "nonneg p \<Longrightarrow> nonneg (touch i a p)"
  unfolding nonneg_def touch_def setdefault_def
proof (rule dict_modify_vals)
  show "list_all (\<lambda>v. (0::real) \<le> v) (map snd (dict_modify a 0 (\<lambda>v. v) []))" by simp
next
  fix v :: scores
  assume "list_all (\<lambda>v. 0 \<le> v) (map snd v)"
  then show "list_all (\<lambda>v. 0 \<le> v) (map snd (dict_modify a 0 (\<lambda>v. v) v))"
    by (rule dict_modify_vals) simp_all
qed

lemma nonneg_credit: "0 \<le> x \<Longrightarrow> nonneg p \<Longrightarrow> nonneg (credit i a x p)"
  unfolding nonneg_def credit_def
proof (rule dict_modify_vals)
  assume "0 \<le> x"
  then show "list_all (\<lambda>v. (0::real) \<le> v) (map snd (dict_modify a 0 (\<lambda>v. v + x) []))" by simp
next
  fix v :: scores
  assume "0 \<le> x" "list_all (\<lambda>v. 0 \<le> v) (map snd v)"
  then show "list_all (\<lambda>v. 0 \<le> v) (map snd (dict_modify a 0 (\<lambda>v. v + x) v))"
    by (intro dict_modify_vals) simp_all
qed

lemma sweep_done:
  "\<not> idx < length asg \<Longrightarrow> sweep lib i asg start stop idx p = Inr (idx, p)"
  by (simp add: sweep.simps)

lemma sweep_bad:
  "idx < length asg \<Longrightarrow> lib (date (asg ! idx)) = None
   \<Longrightarrow> sweep lib i asg start stop idx p = Inl ValueError"
  by (simp add: sweep.simps [of lib i asg start stop idx p] strptime_def)

lemma sweep_skip:
  "idx < length asg \<Longrightarrow> lib (date (asg ! idx)) = Some d \<Longrightarrow> d < start
   \<Longrightarrow> sweep lib i asg start stop idx p = sweep lib i asg start stop (Suc idx) p"
  by (simp add: sweep.simps [of lib i asg start stop idx p] strptime_def)

lemma sweep_inside:
  "idx < length asg \<Longrightarrow> lib (date (asg ! idx)) = Some d \<Longrightarrow> start \<le> d \<Longrightarrow> d < stop
   \<Longrightarrow> sweep lib i asg start stop idx p =
       sweep lib i asg d stop (Suc idx)
         (credit i (log_from (asg ! idx)) (real_of_int (d - start) / 1000000)
            (touch i (log_from (asg ! idx)) p))"
  by (simp add: sweep.simps [of lib i asg start stop idx p] strptime_def datetime_compare_Dt Let_def)

lemma sweep_close:
  "idx < length asg \<Longrightarrow> lib (date (asg ! idx)) = Some d \<Longrightarrow> start \<le> d \<Longrightarrow> stop \<le> d
   \<Longrightarrow> sweep lib i asg start stop idx p =
       Inr (idx, credit i (log_from (asg ! idx)) (real_of_int (stop - start) / 1000000)
                   (touch i (log_from (asg ! idx)) p))"
  by (simp add: sweep.simps [of lib i asg start stop idx p] strptime_def datetime_compare_Dt Let_def)

lemma sweep_ok:
  assumes "\<forall>t \<in> set asg. lib (date t) \<noteq> None"
  shows "start \<le> stop \<Longrightarrow> nonneg p
    \<Longrightarrow> \<exists>idx' p'. sweep lib i asg start stop idx p = Inr (idx', p') \<and> nonneg p'"
proof (induction n \<equiv> "length asg - idx" arbitrary: idx start p)
  case 0
  then show ?case by (simp add: sweep_done)
next
  case (Suc n)
  then have lt: "idx < length asg" by simp
  with assms obtain d where d: "lib (date (asg ! idx)) = Some d" by fastforce
  from Suc.hyps(2) have n: "n = length asg - Suc idx" by simp
  consider "d < start" | "start \<le> d" "d < stop" | "start \<le> d" "stop \<le> d" by linarith
  then show ?case
  proof cases
    case 1
    show ?thesis
      using Suc.hyps(1) [OF n Suc.prems] by (simp add: sweep_skip [where lib = lib and asg = asg, OF lt d 1])
  next
    case 2
    have "nonneg (credit i (log_from (asg ! idx)) (real_of_int (d - start) / 1000000)
            (touch i (log_from (asg ! idx)) p))"
      using 2 Suc.prems by (intro nonneg_credit nonneg_touch) simp_all
    moreover have "d \<le> stop" using 2 by simp
    ultimately show ?thesis
      using Suc.hyps(1) [OF n] by (simp add: sweep_inside [where lib = lib and asg = asg, OF lt d 2])
  next
    case 3
    have "nonneg (credit i (log_from (asg ! idx)) (real_of_int (stop - start) / 1000000)
            (touch i (log_from (asg ! idx)) p))"
      using Suc.prems by (intro nonneg_credit nonneg_touch) simp_all
    then show ?thesis by (simp add: sweep_close [where lib = lib and asg = asg, OF lt d 3])
  qed
qed

section \<open>Durations are not negative\<close>

lemma getidx_nth: "i < length xs \<Longrightarrow> getidx xs (int i) = Inr (xs ! i)"
  by (simp add: getidx_def)

lemma getidx_pred: "0 < i \<Longrightarrow> i < length xs \<Longrightarrow> getidx xs (int i - 1) = Inr (xs ! (i - 1))"
  by (simp add: getidx_def nat_diff_distrib')

lemma strptime_Some: "lib s = Some d \<Longrightarrow> strptime lib s = Inr d"
  by (simp add: strptime_def)

lemma strptime_None: "lib s = None \<Longrightarrow> strptime lib s = Inl ValueError"
  by (simp add: strptime_def)

lemma windows_step:
  assumes "0 < i" "i < length (statuses flds)"
    and "lib (date (statuses flds ! (i - 1))) = Some a"
    and "lib (date (statuses flds ! i)) = Some b"
  shows "windows_loop lib k flds (i # ixs) (idx, p) =
           (case sweep lib k (assignees flds) a b idx p of
              Inl e \<Rightarrow> Inl e
            | Inr st \<Rightarrow> windows_loop lib k flds ixs st)"
  using assms by (simp add: getidx_nth getidx_pred strptime_def)

lemma windows_ok:
  assumes asg: "\<forall>t \<in> set (assignees flds). lib (date t) \<noteq> None"
    and sts: "\<forall>t \<in> set (statuses flds). lib (date t) \<noteq> None"
    and srt: "sorted (map (\<lambda>t. the (lib (date t))) (statuses flds))"
  shows "\<forall>i \<in> set ixs. 0 < i \<and> i < length (statuses flds) \<Longrightarrow> nonneg p
    \<Longrightarrow> \<exists>st. windows_loop lib k flds ixs (idx, p) = Inr st \<and> nonneg (snd st)"
proof (induction ixs arbitrary: idx p)
  case Nil
  then show ?case by simp
next
  case (Cons i ixs)
  then have i: "0 < i" "i < length (statuses flds)" by simp_all
  from i sts obtain a where a: "lib (date (statuses flds ! (i - 1))) = Some a"
    by (metis less_imp_diff_less nth_mem not_None_eq)
  from i sts obtain b where b: "lib (date (statuses flds ! i)) = Some b"
    by (metis nth_mem not_None_eq)
  have "map (\<lambda>t. the (lib (date t))) (statuses flds) ! (i - 1)
        \<le> map (\<lambda>t. the (lib (date t))) (statuses flds) ! i"
    using srt i by (intro sorted_nth_mono) simp_all
  with i a b have ab: "a \<le> b" by simp
  from sweep_ok [OF asg ab Cons.prems(2)]
  obtain idx' p' where sw: "sweep lib k (assignees flds) a b idx p = Inr (idx', p')"
    and nn: "nonneg p'" by blast
  from Cons.prems(1) have rest: "\<forall>i \<in> set ixs. 0 < i \<and> i < length (statuses flds)" by simp
  from Cons.IH [OF rest nn, of idx'] show ?case
    by (simp add: windows_step [OF i a b] sw del: windows_loop.simps)
qed

lemma target_status_idx_set:
  "set (target_status_idx sts target) = {i. i < length sts \<and> log_from (sts ! i) = target}"
  by (auto simp: target_status_idx_def)

lemma target_status_idx_pos:
  assumes "sts \<noteq> []" "log_from (hd sts) = None" "i \<in> set (target_status_idx sts (Some s))"
  shows "0 < i \<and> i < length sts"
proof -
  from assms(3) have i: "i < length sts" "log_from (sts ! i) = Some s"
    by (simp_all add: target_status_idx_set)
  have "i \<noteq> 0"
  proof
    assume "i = 0"
    with assms(1,2) i(2) show False by (simp add: hd_conv_nth)
  qed
  with i show ?thesis by simp
qed

lemma changelog_loop_ok:
  "\<forall>(k, flds) \<in> set cl. timeline_ok lib (statuses flds) \<and> timeline_ok lib (assignees flds)
   \<Longrightarrow> nonneg p
   \<Longrightarrow> \<exists>r. changelog_loop lib (Some s) cl p = Inr r \<and> nonneg r"
proof (induction cl arbitrary: p)
  case Nil
  then show ?case by simp
next
  case (Cons e cl)
  obtain k flds where e: "e = (k, flds)" by (cases e)
  with Cons.prems(1) have ok: "timeline_ok lib (statuses flds)" "timeline_ok lib (assignees flds)"
    by simp_all
  have ix: "\<forall>i \<in> set (target_status_idx (statuses flds) (Some s)).
              0 < i \<and> i < length (statuses flds)"
    using ok(1) target_status_idx_pos [of "statuses flds"] by (auto simp: timeline_ok_def)
  have "\<exists>st. windows_loop lib k flds (target_status_idx (statuses flds) (Some s)) (0, p) = Inr st
          \<and> nonneg (snd st)"
    using ok ix Cons.prems(2) by (intro windows_ok) (simp_all add: timeline_ok_def ascending_def list_all_iff)
  then obtain idx' p' where
    w: "windows_loop lib k flds (target_status_idx (statuses flds) (Some s)) (0, p) = Inr (idx', p')"
    and nn: "nonneg p'" by auto
  from Cons.prems(1) have "\<forall>(k, flds) \<in> set cl.
      timeline_ok lib (statuses flds) \<and> timeline_ok lib (assignees flds)" by simp
  from Cons.IH [OF this nn] show ?case by (simp add: e w)
qed

lemma nonneg_iff: "nonneg r \<longleftrightarrow> (\<forall>(k, al) \<in> set r. \<forall>(a, v) \<in> set al. 0 \<le> v)"
  unfolding nonneg_def list_all_iff by fastforce

text \<open>
  C7: when the status and the assignee timeline of every issue satisfy the Timeline
  invariant and the target status is not null, \<^verbatim>\<open>calculate_workload\<close> returns, and
  every duration of the mapping it returns is at least zero.
\<close>

theorem calculate_workload_nonnegative:
  assumes "\<forall>(issue_key, flds) \<in> set changelog.
             timeline_ok lib (statuses flds) \<and> timeline_ok lib (assignees flds)"
  shows "\<exists>r. calculate_workload lib changelog (Some target_status) = Inr r
           \<and> (\<forall>(issue_key, al) \<in> set r. \<forall>(assignee, v) \<in> set al. 0 \<le> v)"
proof -
  have "nonneg []" by (simp add: nonneg_def)
  from changelog_loop_ok [OF assms this, of target_status]
  show ?thesis by (simp add: calculate_workload_def nonneg_iff)
qed

theorem calculate_workload_nonnegative_witness:
  "list_all (\<lambda>(issue_key, flds).
      timeline_ok sample_lib (statuses flds) \<and> timeline_ok sample_lib (assignees flds)) scenario_A
   \<and> (\<exists>r. calculate_workload sample_lib scenario_A (Some ''10111'') = Inr r
           \<and> (\<forall>(issue_key, al) \<in> set r. \<forall>(assignee, v) \<in> set al. 0 \<le> v))"
proof -
  have ok: "list_all (\<lambda>(issue_key, flds).
      timeline_ok sample_lib (statuses flds) \<and> timeline_ok sample_lib (assignees flds)) scenario_A"
    by (simp add: scenario_A_def timeline_ok_def ascending_def sample_lib_def)
  then have "\<forall>(issue_key, flds) \<in> set scenario_A.
      timeline_ok sample_lib (statuses flds) \<and> timeline_ok sample_lib (assignees flds)"
    by (simp add: list_all_iff)
  from calculate_workload_nonnegative [OF this, of "''10111''"] ok show ?thesis by blast
qed


section \<open>The tail of a window\<close>

text \<open>
  C1: window completeness. The issue is in the target status 10111 from \<open>t1\<close> to \<open>t2\<close>, a
  closed window of 153900 seconds, and is held by user123 from its creation on. The
  cursor runs off the assignee timeline while every date is before the window; nothing
  is credited, and the issue gets no entry at all.
\<close>

theorem window_tail_lost:
  "calculate_workload sample_lib never_reassigned (Some ''10111'') = Inr []
   \<and> allocated_seconds [] ''12345'' = 0
   \<and> datetime_compare sample_lib (Str t2) (Str t1) = Inr 153900"
  by (simp add: calculate_workload_def never_reassigned_def target_status_idx_def getidx_def
      strptime_def sample_lib_def sweep.simps allocated_seconds_def datetime_compare_def
      to_datetime_def total_seconds_def upt_rec)

text \<open>
  C2: Scenario A. The window is \<open>[t1, t2)\<close> and the issue goes from user123 to user456 at
  \<open>t1h\<close> inside it. user123 is credited \<open>t1h - t1\<close> = 67500 seconds; the 86400 seconds
  from \<open>t1h\<close> to \<open>t2\<close> are credited to nobody, and user456 has no entry.
\<close>

theorem scenario_A_allocation:
  "calculate_workload sample_lib scenario_A (Some ''10111'')
     = Inr [(''12345'', [(Some ''user123'', 67500)])]"
  by (simp add: calculate_workload_def scenario_A_def target_status_idx_def getidx_def
      strptime_def sample_lib_def sweep.simps touch_def credit_def setdefault_def
      datetime_compare_def to_datetime_def total_seconds_def upt_rec)

section \<open>The timelines that build_changelog produces\<close>

lemma items_loop_eq:
  "items_loop c its (sc, ac) =
     (sc @ map (as_transition c) (filter (\<lambda>it. field it = ''status'' \<and> fieldtype it = ''jira'') its),
      ac @ map (as_transition c) (filter (\<lambda>it. field it = ''assignee'' \<and> fieldtype it = ''jira'') its))"
  by (induction its arbitrary: sc ac) (auto simp: as_transition_def)

lemma histories_loop_eq:
  "histories_loop hs (sc, ac) = (sc @ status_events hs, ac @ assignee_events hs)"
  by (induction hs arbitrary: sc ac)
     (simp_all add: items_loop_eq status_events_def assignee_events_def)

lemma initial_status_eq:
  "initial_status i (status_events (histories i)) = synthetic_status i"
  by (simp add: initial_status_def synthetic_status_def split: list.splits)

lemma initial_assignee_eq:
  "initial_assignee i (assignee_events (histories i)) = synthetic_assignee i"
  by (simp add: initial_assignee_def synthetic_assignee_def split: list.splits)

lemma issue_timelines_eq:
  "issue_timelines i =
     \<lparr>statuses = rev (status_events (histories i) @ [synthetic_status i]),
      assignees = rev (assignee_events (histories i) @ [synthetic_assignee i])\<rparr>"
  using histories_loop_eq [of "histories i" "[]" "[]"]
  by (simp add: issue_timelines_def initial_status_eq initial_assignee_eq)

lemma map_of_dict_modify:
  "map_of (dict_modify k d f m) =
     (map_of m)(k \<mapsto> f (case map_of m k of None \<Rightarrow> d | Some v \<Rightarrow> v))"
  by (induction m) (auto simp: fun_eq_iff)

lemma set_dict_modify:
  "e \<in> set (dict_modify k d f m) \<Longrightarrow> e \<in> set m \<or> fst e = k"
  by (induction m) (auto split: if_splits)

lemma map_fst_dict_modify:
  "map fst (dict_modify k d f m) =
     (if k \<in> set (map fst m) then map fst m else map fst m @ [k])"
proof (induction m)
  case Nil
  show ?case by simp
next
  case (Cons e m)
  obtain k' v where e: "e = (k', v)" by (cases e)
  show ?case using Cons.IH by (cases "k' = k") (simp_all add: e)
qed

lemma keys_dict_modify: "fst ` set (dict_modify k d f m) = insert k (fst ` set m)"
proof -
  have "set (map fst (dict_modify k d f m)) = insert k (set (map fst m))"
    unfolding map_fst_dict_modify by auto
  then show ?thesis by simp
qed


lemma set_setitem: "e \<in> set (setitem k v m) \<Longrightarrow> e \<in> set m \<or> e = (k, v)"
  unfolding setitem_def by (induction m) (auto split: if_splits)

lemma issues_loop_map_of:
  "map_of (issues_loop xs cl) =
     map_of cl ++ map_of (rev (map (\<lambda>i. (issue_id i, issue_timelines i)) xs))"
proof (induction xs arbitrary: cl)
  case Nil
  show ?case by simp
next
  case (Cons i xs)
  show ?case
    by (simp add: Cons.IH setitem_def map_of_dict_modify fun_eq_iff map_add_def
        split: option.splits)
qed

lemma issues_loop_set:
  "set (issues_loop xs cl) \<subseteq> set cl \<union> (\<lambda>i. (issue_id i, issue_timelines i)) ` set xs"
proof (induction xs arbitrary: cl)
  case Nil
  show ?case by simp
next
  case (Cons i xs)
  have "set (setitem (issue_id i) (issue_timelines i) cl)
          \<subseteq> insert (issue_id i, issue_timelines i) (set cl)"
    using set_setitem by fastforce
  with Cons.IH [of "setitem (issue_id i) (issue_timelines i) cl"] show ?case by auto
qed

text \<open>
  C5, as the code computes it: the synthetic initial entry is appended to the filtered
  events, which are newest first, and the whole sequence is reversed, so the synthetic
  entry comes first. Every entry of the changelog is built so from an issue of the
  response, and the entry of an issue id is the one of the last issue with that id.
\<close>

theorem build_changelog_timelines:
  "map_of (build_changelog resp) =
     map_of (rev (map (\<lambda>i. (issue_id i,
         \<lparr>statuses = rev (status_events (histories i) @ [synthetic_status i]),
          assignees = rev (assignee_events (histories i) @ [synthetic_assignee i])\<rparr>))
       (issues resp)))
   \<and> set (build_changelog resp) \<subseteq>
       set (map (\<lambda>i. (issue_id i,
         \<lparr>statuses = rev (status_events (histories i) @ [synthetic_status i]),
          assignees = rev (assignee_events (histories i) @ [synthetic_assignee i])\<rparr>))
       (issues resp))"
  unfolding issue_timelines_eq [symmetric] build_changelog_def
  using issues_loop_map_of [of "issues resp" "[]"] issues_loop_set [of "issues resp" "[]"]
  by simp

text \<open>
  C5, as it is worded: with one status change, prepending the synthetic entry and
  reversing puts it last, while the code puts it first.
\<close>

theorem prepend_then_reverse_counterexample:
  "build_changelog sample_response = [(''12345'', issue_timelines sample_issue)]
   \<and> statuses (issue_timelines sample_issue) =
       [\<lparr>date = t0, log_from = None, log_to = Some ''10001''\<rparr>,
        \<lparr>date = t1, log_from = Some ''10001'', log_to = Some ''10111''\<rparr>]
   \<and> spec_timeline (synthetic_status sample_issue) (status_events (histories sample_issue)) =
       [\<lparr>date = t1, log_from = Some ''10001'', log_to = Some ''10111''\<rparr>,
        \<lparr>date = t0, log_from = None, log_to = Some ''10001''\<rparr>]"
  by (simp add: build_changelog_def sample_response_def sample_issue_def setitem_def
      issue_timelines_def initial_status_def spec_timeline_def synthetic_status_def
      status_events_def as_transition_def)

section \<open>A null target status\<close>

lemma statuses_issue_timelines:
  "statuses (issue_timelines i) = synthetic_status i # rev (status_events (histories i))"
  by (simp add: issue_timelines_eq)


lemma target_status_idx_Cons:
  "log_from x = target \<Longrightarrow> hd (target_status_idx (x # xs) target) = 0"
  by (simp add: target_status_idx_def upt_rec [of 0])

lemma getidx_last: "xs \<noteq> [] \<Longrightarrow> getidx xs (int 0 - 1) = Inr (last xs)"
  by (cases xs rule: rev_cases) (simp_all add: getidx_def nat_add_distrib)

text \<open>
  C10: with a null target status the synthetic initial status transition of every issue,
  whose \<^verbatim>\<open>from\<close> is null, is the first exit, at index 0, and the start of its window is
  read at index -1, the last entry of the status timeline. For the sample issue the
  window then runs from \<open>t1\<close> back to \<open>t0\<close>, and user123 is credited -102600 seconds.
\<close>

theorem null_target_negative:
  "hd (target_status_idx (statuses (issue_timelines i)) None) = 0
   \<and> getidx (statuses (issue_timelines i)) (int 0 - 1) = Inr (last (statuses (issue_timelines i)))
   \<and> calculate_workload sample_lib (build_changelog sample_response) None
       = Inr [(''12345'', [(Some ''user123'', - 102600)])]"
proof -
  have a: "hd (target_status_idx (statuses (issue_timelines i)) None) = 0"
    unfolding statuses_issue_timelines
    by (rule target_status_idx_Cons) (simp add: synthetic_status_def)
  have b: "getidx (statuses (issue_timelines i)) (int 0 - 1)
             = Inr (last (statuses (issue_timelines i)))"
    by (rule getidx_last) (simp add: statuses_issue_timelines)
  have c: "build_changelog sample_response =
      [(''12345'',
        \<lparr>statuses =
           [\<lparr>date = t0, log_from = None, log_to = Some ''10001''\<rparr>,
            \<lparr>date = t1, log_from = Some ''10001'', log_to = Some ''10111''\<rparr>],
         assignees =
           [\<lparr>date = t0, log_from = None, log_to = Some ''user123''\<rparr>,
            \<lparr>date = t1h, log_from = Some ''user123'', log_to = Some ''user456''\<rparr>]\<rparr>)]"
    by (simp add: build_changelog_def sample_response_def sample_issue_def setitem_def
        issue_timelines_def initial_status_def initial_assignee_def)
  have d: "calculate_workload sample_lib (build_changelog sample_response) None
       = Inr [(''12345'', [(Some ''user123'', - 102600)])]"
    unfolding c
    by (simp add: calculate_workload_def target_status_idx_def getidx_def
      strptime_def sample_lib_def sweep.simps touch_def credit_def setdefault_def
      datetime_compare_def to_datetime_def total_seconds_def upt_rec)
  from a b d show ?thesis by simp
qed

section \<open>Issues without an exit, and malformed timestamps\<close>

lemma keys_touch: "fst ` set (touch k a p) = insert k (fst ` set p)"
  by (simp add: touch_def keys_dict_modify)

lemma keys_credit: "fst ` set (credit k a x p) = insert k (fst ` set p)"
  by (simp add: credit_def keys_dict_modify)

lemma sweep_keys:
  "sweep lib k asg start stop idx p = Inr (idx', p')
   \<Longrightarrow> fst ` set p' \<subseteq> insert k (fst ` set p)"
proof (induction n \<equiv> "length asg - idx" arbitrary: idx start p)
  case 0
  then show ?case by (auto simp: sweep_done)
next
  case (Suc n)
  then have lt: "idx < length asg" by simp
  from Suc.hyps(2) have n: "n = length asg - Suc idx" by simp
  show ?case
  proof (cases "lib (date (asg ! idx))")
    case None
    with Suc.prems lt show ?thesis by (simp add: sweep_bad)
  next
    case (Some d)
    consider "d < start" | "start \<le> d" "d < stop" | "start \<le> d" "stop \<le> d" by linarith
    then show ?thesis
    proof cases
      case 1
      from Suc.prems have "sweep lib k asg start stop (Suc idx) p = Inr (idx', p')"
        by (simp add: sweep_skip [where lib = lib and asg = asg, OF lt Some 1])
      from Suc.hyps(1) [OF n this] show ?thesis .
    next
      case 2
      from Suc.prems have "sweep lib k asg d stop (Suc idx)
          (credit k (log_from (asg ! idx)) (real_of_int (d - start) / 1000000)
             (touch k (log_from (asg ! idx)) p)) = Inr (idx', p')"
        by (simp add: sweep_inside [where lib = lib and asg = asg, OF lt Some 2])
      from Suc.hyps(1) [OF n this] show ?thesis
        by (simp only: keys_credit keys_touch insert_absorb2)
    next
      case 3
      from Suc.prems have "p' = credit k (log_from (asg ! idx))
          (real_of_int (stop - start) / 1000000) (touch k (log_from (asg ! idx)) p)"
        by (auto simp: sweep_close [where lib = lib and asg = asg, OF lt Some 3])
      then have "fst ` set p' = insert k (fst ` set p)"
        by (simp only: keys_credit keys_touch insert_absorb2)
      then show ?thesis by simp
    qed
  qed
qed


lemma getidx_prev_ok: "j < length xs \<Longrightarrow> \<exists>t. getidx xs (int j - 1) = Inr t"
  by (auto simp: getidx_def)

text \<open>One round of the loop over the exits, by the outcome of its two parses.\<close>

lemma windows_Cons_cases:
  assumes "j < length (statuses flds)"
  obtains (bad) "windows_loop lib k flds (j # ixs) (idx, p) = Inl ValueError"
      and "(\<exists>t. getidx (statuses flds) (int j - 1) = Inr t \<and> lib (date t) = None)
           \<or> lib (date (statuses flds ! j)) = None"
    | (good) t a b where "getidx (statuses flds) (int j - 1) = Inr t"
      and "lib (date t) = Some a" and "lib (date (statuses flds ! j)) = Some b"
      and "windows_loop lib k flds (j # ixs) (idx, p) =
             (case sweep lib k (assignees flds) a b idx p of
                Inl e \<Rightarrow> Inl e
              | Inr st \<Rightarrow> windows_loop lib k flds ixs st)"
proof -
  from getidx_prev_ok [OF assms] obtain t where t: "getidx (statuses flds) (int j - 1) = Inr t"
    by blast
  show thesis
  proof (cases "lib (date t)")
    case None
    with t show thesis by (intro bad) (auto simp: strptime_def)
  next
    case a: (Some a)
    show thesis
    proof (cases "lib (date (statuses flds ! j))")
      case None
      with t a assms show thesis by (intro bad) (auto simp: strptime_def getidx_nth)
    next
      case (Some b)
      with t a assms show thesis by (intro good [of t a b]) (auto simp: strptime_def getidx_nth)
    qed
  qed
qed

lemma windows_keys:
  "\<forall>j \<in> set ixs. j < length (statuses flds)
   \<Longrightarrow> windows_loop lib k flds ixs (idx, p) = Inr (idx', p')
   \<Longrightarrow> fst ` set p' \<subseteq> insert k (fst ` set p)"
proof (induction ixs arbitrary: idx p)
  case Nil
  then show ?case by auto
next
  case (Cons j ixs)
  then have j: "j < length (statuses flds)" by simp
  show ?case
  using j
  proof (cases rule: windows_Cons_cases [where lib = lib and k = k and ixs = ixs and idx = idx and p = p])
    case bad
    with Cons.prems(2) show ?thesis by simp
  next
    case (good t a b)
    with Cons.prems(2) obtain idx1 p1 where
      sw: "sweep lib k (assignees flds) a b idx p = Inr (idx1, p1)"
      and w: "windows_loop lib k flds ixs (idx1, p1) = Inr (idx', p')"
      by (auto split: sum.splits)
    from Cons.prems(1) have "\<forall>j \<in> set ixs. j < length (statuses flds)" by simp
    from Cons.IH [OF this w] sweep_keys [OF sw] show ?thesis by auto
  qed
qed



lemma target_status_idx_valid:
  "\<forall>j \<in> set (target_status_idx sts target). j < length sts"
  by (simp add: target_status_idx_set)

lemma target_status_idx_empty:
  "(target_status_idx sts target = []) = (\<forall>t \<in> set sts. log_from t \<noteq> target)"
  by (auto simp: target_status_idx_def filter_empty_conv all_set_conv_all_nth)

lemma changelog_loop_keys:
  "changelog_loop lib target cl p = Inr r
   \<Longrightarrow> fst ` set r \<subseteq> fst ` set p \<union> fst ` set cl"
proof (induction cl arbitrary: p)
  case Nil
  then show ?case by simp
next
  case (Cons e cl)
  obtain k flds where e: "e = (k, flds)" by (cases e)
  from Cons.prems obtain idx1 p1 where
    w: "windows_loop lib k flds (target_status_idx (statuses flds) target) (0, p) = Inr (idx1, p1)"
    and c: "changelog_loop lib target cl p1 = Inr r"
    by (auto simp: e split: sum.splits)
  from windows_keys [OF target_status_idx_valid w] Cons.IH [OF c] show ?case
    by (simp add: e) blast
qed

lemma changelog_loop_skip:
  "\<forall>flds. (k, flds) \<in> set cl \<longrightarrow> target_status_idx (statuses flds) target = []
   \<Longrightarrow> changelog_loop lib target cl p
       = changelog_loop lib target (filter (\<lambda>e. fst e \<noteq> k) cl) p"
proof (induction cl arbitrary: p)
  case Nil
  show ?case by simp
next
  case (Cons e cl)
  obtain k' flds where e: "e = (k', flds)" by (cases e)
  from Cons.prems have rest:
    "\<forall>flds. (k, flds) \<in> set cl \<longrightarrow> target_status_idx (statuses flds) target = []" by simp
  show ?case
  proof (cases "k' = k")
    case True
    with Cons.prems e have "target_status_idx (statuses flds) target = []" by simp
    with True e Cons.IH [OF rest] show ?thesis by simp
  next
    case False
    with e Cons.IH [OF rest] show ?thesis by (simp split: sum.splits)
  qed
qed


text \<open>
  C3: an issue whose status timeline has no transition with \<^verbatim>\<open>from\<close> equal to the target
  status can be taken out of the changelog without changing what \<^verbatim>\<open>calculate_workload\<close>
  returns, so it raises nothing, whatever its dates are; the result has no entry for
  it; and on its own it gives the empty allocation.
\<close>

theorem no_exit_no_entry:
  assumes "distinct (map fst changelog)"
    and "(issue_key, flds) \<in> set changelog"
    and "\<forall>t \<in> set (statuses flds). log_from t \<noteq> target_status"
  shows "calculate_workload lib changelog target_status
           = calculate_workload lib (filter (\<lambda>e. fst e \<noteq> issue_key) changelog) target_status
     \<and> (\<forall>r. calculate_workload lib changelog target_status = Inr r
            \<longrightarrow> map_of r issue_key = None)
     \<and> calculate_workload lib [(issue_key, flds)] target_status = Inr []"
proof -
  from assms(3) have none: "target_status_idx (statuses flds) target_status = []"
    by (simp add: target_status_idx_empty)
  have only: "\<forall>flds'. (issue_key, flds') \<in> set changelog
      \<longrightarrow> target_status_idx (statuses flds') target_status = []"
  proof (intro allI impI)
    fix flds'
    assume "(issue_key, flds') \<in> set changelog"
    with assms(1,2) have "flds' = flds" by (meson eq_key_imp_eq_value)
    with none show "target_status_idx (statuses flds') target_status = []" by simp
  qed
  have skip: "calculate_workload lib changelog target_status
           = calculate_workload lib (filter (\<lambda>e. fst e \<noteq> issue_key) changelog) target_status"
    unfolding calculate_workload_def by (rule changelog_loop_skip [OF only])
  have absent: "map_of r issue_key = None"
    if "calculate_workload lib changelog target_status = Inr r" for r
  proof -
    from that skip
    have "changelog_loop lib target_status (filter (\<lambda>e. fst e \<noteq> issue_key) changelog) [] = Inr r"
      by (simp add: calculate_workload_def)
    from changelog_loop_keys [OF this] have "issue_key \<notin> fst ` set r" by auto
    then show ?thesis by (simp add: map_of_eq_None_iff)
  qed
  have single: "calculate_workload lib [(issue_key, flds)] target_status = Inr []"
    by (simp add: calculate_workload_def none)
  from skip absent single show ?thesis by blast
qed

theorem no_exit_no_entry_witness:
  "distinct (map fst scenario_B)
   \<and> list_all (\<lambda>t. log_from t \<noteq> Some ''10111'') (statuses (snd (hd scenario_B)))
   \<and> calculate_workload sample_lib scenario_B (Some ''10111'') = Inr []"
proof -
  have d: "distinct (map fst scenario_B)" by (simp add: scenario_B_def)
  have m: "(''12345'', snd (hd scenario_B)) \<in> set scenario_B" by (simp add: scenario_B_def)
  have n: "list_all (\<lambda>t. log_from t \<noteq> Some ''10111'') (statuses (snd (hd scenario_B)))"
    by (simp add: scenario_B_def)
  then have n': "\<forall>t \<in> set (statuses (snd (hd scenario_B))). log_from t \<noteq> Some ''10111''"
    by (simp add: list_all_iff)
  have s: "scenario_B = [(''12345'', snd (hd scenario_B))]" by (simp add: scenario_B_def)
  from no_exit_no_entry [OF d m n', of sample_lib]
  have "calculate_workload sample_lib [(''12345'', snd (hd scenario_B))] (Some ''10111'') = Inr []"
    by blast
  with s have "calculate_workload sample_lib scenario_B (Some ''10111'') = Inr []" by simp
  with d n show ?thesis by simp
qed

section \<open>Which timestamps are parsed\<close>














section \<open>The Timeline invariant of the timelines built\<close>









section \<open>Looking a date up in a timeline\<close>

lemma datetime_compare_Str:
  "lib s = Some a \<Longrightarrow> to_datetime lib d = Inr q
   \<Longrightarrow> datetime_compare lib (Str s) d = Inr (real_of_int (a - q) / 1000000)"
  by (simp add: datetime_compare_def to_datetime_def strptime_def total_seconds_def field_simps)

lemma find_loop_step:
  assumes "lib (date u) = Some a" and "to_datetime lib d = Inr q"
  shows "find_loop lib d inclusive (u # rest) prev =
           (if a < q \<or> (inclusive \<and> a = q) then find_loop lib d inclusive rest (Some u)
            else Inr prev)"
  by (simp add: datetime_compare_Str [OF assms] divide_less_0_iff)

lemma find_loop_pass:
  assumes q: "to_datetime lib d = Inr q"
  shows "\<forall>u \<in> set pre. \<exists>a. lib (date u) = Some a \<and> a \<le> q
    \<Longrightarrow> find_loop lib d True (pre @ rest) prev =
        find_loop lib d True rest (if pre = [] then prev else Some (last pre))"
proof (induction pre arbitrary: prev)
  case Nil
  show ?case by simp
next
  case (Cons u pre)
  from Cons.prems obtain a where a: "lib (date u) = Some a" "a \<le> q" by auto
  from Cons.prems have "\<forall>u \<in> set pre. \<exists>a. lib (date u) = Some a \<and> a \<le> q" by simp
  from Cons.IH [OF this, of "Some u"] a(2) show ?case
    by (simp add: find_loop_step [OF a(1) q] del: find_loop.simps)
qed

lemma find_loop_stop:
  assumes q: "to_datetime lib d = Inr q"
    and "\<forall>u \<in> set rest. \<exists>a. lib (date u) = Some a \<and> q < a"
  shows "find_loop lib d inclusive rest prev = Inr prev"
proof (cases rest)
  case Nil
  then show ?thesis by simp
next
  case (Cons u rest')
  with assms(2) obtain a where a: "lib (date u) = Some a" "q < a" by auto
  from a(2) show ?thesis
    by (simp add: Cons find_loop_step [OF a(1) q] del: find_loop.simps)
qed

lemma find_loop_at:
  fixes lib :: parser
  assumes asc: "ascending lib (pre @ t # post)"
    and later: "\<forall>u \<in> set post. the (lib (date t)) < the (lib (date u))"
  shows "find_loop lib (Str (date t)) True (pre @ t # post) None = Inr (Some t)"
proof -
  from asc obtain q where q: "lib (date t) = Some q"
    by (auto simp: ascending_def)
  then have d: "to_datetime lib (Str (date t)) = Inr q"
    by (simp add: to_datetime_def strptime_def)
  have before: "\<forall>u \<in> set (pre @ [t]). \<exists>a. lib (date u) = Some a \<and> a \<le> q"
  proof
    fix u
    assume u: "u \<in> set (pre @ [t])"
    with asc obtain a where a: "lib (date u) = Some a"
      by (auto simp: ascending_def list_all_iff)
    from asc have "\<forall>u \<in> set pre. the (lib (date u)) \<le> the (lib (date t))"
      by (auto simp: ascending_def sorted_append)
    with u a q have "a \<le> q" by auto
    with a show "\<exists>a. lib (date u) = Some a \<and> a \<le> q" by simp
  qed
  have after: "\<forall>u \<in> set post. \<exists>a. lib (date u) = Some a \<and> q < a"
  proof
    fix u
    assume u: "u \<in> set post"
    with asc obtain a where a: "lib (date u) = Some a"
      by (auto simp: ascending_def list_all_iff)
    with later u q show "\<exists>a. lib (date u) = Some a \<and> q < a" by auto
  qed
  from find_loop_pass [OF d before, of post None]
  have "find_loop lib (Str (date t)) True (pre @ t # post) None
          = find_loop lib (Str (date t)) True post (Some t)"
    by simp
  with find_loop_stop [OF d after, of True "Some t"] show ?thesis by simp
qed

lemma find_loop_early:
  fixes lib :: parser
  assumes asc: "ascending lib its"
    and q: "to_datetime lib d = Inr q"
    and early: "\<forall>u \<in> set its. q < the (lib (date u))"
  shows "find_loop lib d inclusive its None = Inr None"
proof (rule find_loop_stop [OF q])
  show "\<forall>u \<in> set its. \<exists>a. lib (date u) = Some a \<and> q < a"
  proof
    fix u
    assume u: "u \<in> set its"
    with asc obtain a where a: "lib (date u) = Some a"
      by (auto simp: ascending_def list_all_iff)
    with early u show "\<exists>a. lib (date u) = Some a \<and> q < a" by auto
  qed
qed

text \<open>
  C6, with ties between timestamps taken into account: in a timeline that is not empty
  and does not decrease, the inclusive lookup at the date of a transition \<open>t\<close> returns \<open>t\<close>
  itself when every transition after \<open>t\<close> has a strictly later timestamp; and a query
  date that precedes every transition, given as a string or as a datetime, returns the
  first transition.
\<close>

theorem find_at_time_lookup:
  fixes lib :: parser
  assumes "getitem changelog issue_key = Inr flds"
    and "timeline_of flds timeline_key = Inr its"
    and "its \<noteq> []"
    and "ascending lib its"
  shows "(\<forall>pre t post.
            its = pre @ t # post \<and> (\<forall>u \<in> set post. the (lib (date t)) < the (lib (date u)))
            \<longrightarrow> find_at_time lib changelog (Str (date t)) issue_key timeline_key True = Inr t)
     \<and> (\<forall>d q inclusive.
            to_datetime lib d = Inr q \<and> (\<forall>u \<in> set its. q < the (lib (date u)))
            \<longrightarrow> find_at_time lib changelog d issue_key timeline_key inclusive = Inr (hd its))"
proof (intro conjI allI impI)
  fix pre t post
  assume a: "its = pre @ t # post
      \<and> (\<forall>u \<in> set post. the (lib (date t)) < the (lib (date u)))"
  with assms(4) have "find_loop lib (Str (date t)) True its None = Inr (Some t)"
    using find_loop_at [of lib pre t post] by simp
  with assms(1,2) show "find_at_time lib changelog (Str (date t)) issue_key timeline_key True
      = Inr t"
    by (simp add: find_at_time_def)
next
  fix d q inclusive
  assume a: "to_datetime lib d = Inr q \<and> (\<forall>u \<in> set its. q < the (lib (date u)))"
  with find_loop_early [OF assms(4), of d q inclusive]
  have "find_loop lib d inclusive its None = Inr None" by simp
  moreover from assms(3) have "getidx its 0 = Inr (hd its)"
    by (cases its) (simp_all add: getidx_def)
  ultimately show "find_at_time lib changelog d issue_key timeline_key inclusive = Inr (hd its)"
    using assms(1,2) by (simp add: find_at_time_def)
qed

theorem find_at_time_lookup_witness:
  "ascending sample_lib (statuses (snd (hd scenario_A)))
   \<and> find_at_time sample_lib scenario_A (Str t1) ''12345'' ''statuses'' True
       = Inr \<lparr>date = t1, log_from = Some ''10001'', log_to = Some ''10111''\<rparr>
   \<and> find_at_time sample_lib scenario_A (Dt 0) ''12345'' ''statuses'' False
       = Inr \<lparr>date = t0, log_from = None, log_to = Some ''10001''\<rparr>"
proof -
  let ?its = "statuses (snd (hd scenario_A))"
  have g: "getitem scenario_A ''12345'' = Inr (snd (hd scenario_A))"
    by (simp add: getitem_def scenario_A_def)
  have k: "timeline_of (snd (hd scenario_A)) ''statuses'' = Inr ?its"
    by (simp add: timeline_of_def)
  have ne: "?its \<noteq> []" by (simp add: scenario_A_def)
  have asc: "ascending sample_lib ?its"
    by (simp add: scenario_A_def ascending_def sample_lib_def)
  note lookup = find_at_time_lookup [OF g k ne asc]
  have split: "?its = [\<lparr>date = t0, log_from = None, log_to = Some ''10001''\<rparr>]
      @ \<lparr>date = t1, log_from = Some ''10001'', log_to = Some ''10111''\<rparr>
      # [\<lparr>date = t2, log_from = Some ''10111'', log_to = Some ''10001''\<rparr>]"
    by (simp add: scenario_A_def)
  have later: "\<forall>u \<in> set [\<lparr>date = t2, log_from = Some ''10111'', log_to = Some ''10001''\<rparr>].
      the (sample_lib (date \<lparr>date = t1, log_from = Some ''10001'', log_to = Some ''10111''\<rparr>))
        < the (sample_lib (date u))"
    by (simp add: sample_lib_def)
  from lookup split later
  have one: "find_at_time sample_lib scenario_A
        (Str (date \<lparr>date = t1, log_from = Some ''10001'', log_to = Some ''10111''\<rparr>))
        ''12345'' ''statuses'' True
      = Inr \<lparr>date = t1, log_from = Some ''10001'', log_to = Some ''10111''\<rparr>"
    by blast
  have early: "to_datetime sample_lib (Dt 0) = Inr 0
      \<and> (\<forall>u \<in> set ?its. 0 < the (sample_lib (date u)))"
    by (simp add: to_datetime_def scenario_A_def sample_lib_def)
  with lookup have "find_at_time sample_lib scenario_A (Dt 0) ''12345'' ''statuses'' False
      = Inr (hd ?its)"
    by blast
  then have two: "find_at_time sample_lib scenario_A (Dt 0) ''12345'' ''statuses'' False
      = Inr \<lparr>date = t0, log_from = None, log_to = Some ''10001''\<rparr>"
    by (simp add: scenario_A_def)
  from asc one two show ?thesis by simp
qed

text \<open>
  C6, as it is worded: the two status transitions share the timestamp \<open>t0\<close> and the
  timeline satisfies the Timeline invariant; the inclusive lookup at the date of the
  first transition returns the second one.
\<close>

theorem tie_lookup_counterexample:
  "timeline_ok sample_lib (statuses (snd (hd tie_changelog)))
   \<and> hd (statuses (snd (hd tie_changelog)))
       = \<lparr>date = t0, log_from = None, log_to = Some ''10001''\<rparr>
   \<and> find_at_time sample_lib tie_changelog (Str t0) ''12345'' ''statuses'' True
       = Inr \<lparr>date = t0, log_from = Some ''10001'', log_to = Some ''10111''\<rparr>"
  by (simp add: tie_changelog_def timeline_ok_def ascending_def sample_lib_def
      find_at_time_def getitem_def timeline_of_def datetime_compare_def to_datetime_def
      strptime_def total_seconds_def)

section \<open>The lead of an issue\<close>











end
